theory Spec2Isabelle
  imports Main "HOL-Library.Sublist" "HOL-Library.AList" "HOL-Library.Word"
begin

section \<open>JavaScript strings\<close>

text \<open>
  A JavaScript string is modelled by the list of the bytes of its UTF-8 encoding
  (\<^typ>\<open>string\<close>). Every marker the code looks for (\<open>/\<close>, \<open>-cn\<close>, \<open>index\<close>, \<open>## \<close>,
  \<open><style>\<close>, the CSS fence, \<open><head>\<close>, \<open>:\<close>, \<open>$\<close>) is ASCII, and an ASCII byte never
  occurs inside a multi-byte UTF-8 sequence, so searching, splitting and replacing act
  on the bytes as they act on the UTF-16 code units. The only comparison of an index
  with a length in the code (\<open>pathname.indexOf('/') === pathname.length - 1\<close>) is made on
  a string that starts with \<open>/\<close>, where both sides agree in either encoding.
\<close>

definition startsWith :: "string \<Rightarrow> string \<Rightarrow> bool" where
  "startsWith s p = (take (length p) s = p)"

definition endsWith :: "string \<Rightarrow> string \<Rightarrow> bool" where
  "endsWith s p = (length p \<le> length s \<and> drop (length s - length p) s = p)"

text \<open>\<open>String.prototype.indexOf\<close>: the index of the first occurrence, \<open>-1\<close> when there is none.\<close>

fun indexOf :: "string \<Rightarrow> string \<Rightarrow> int" where
  "indexOf [] p = (if p = [] then 0 else - 1)"
| "indexOf (c # cs) p =
     (if startsWith (c # cs) p then 0
      else let i = indexOf cs p in if i < 0 then - 1 else i + 1)"

definition js_includes :: "string \<Rightarrow> string \<Rightarrow> bool" where
  "js_includes s p = (0 \<le> indexOf s p)"

text \<open>
  The replacement text of \<open>String.prototype.replace\<close> for a string pattern (the standard's
  \<open>GetSubstitution\<close> with no capture groups): \<open>$$\<close> is a dollar sign, \<open>$&\<close> the matched
  text, \<open>$`\<close> the text before the match and \<open>$'\<close> the text after it; every other character
  stands for itself.
\<close>

fun getSubstitution :: "string \<Rightarrow> string \<Rightarrow> string \<Rightarrow> string \<Rightarrow> string" where
  "getSubstitution m b a [] = []"
| "getSubstitution m b a [c] = [c]"
| "getSubstitution m b a (c # d # ds) =
     (if c = CHR ''$'' \<and> d = CHR ''$'' then CHR ''$'' # getSubstitution m b a ds
      else if c = CHR ''$'' \<and> d = CHR ''&'' then m @ getSubstitution m b a ds
      else if c = CHR ''$'' \<and> d = CHR 0x60 then b @ getSubstitution m b a ds
      else if c = CHR ''$'' \<and> d = CHR 0x27 then a @ getSubstitution m b a ds
      else c # getSubstitution m b a (d # ds))"

text \<open>\<open>s.replace(pat, rep)\<close> with a string pattern: only the first occurrence is replaced.\<close>

definition replace :: "string \<Rightarrow> string \<Rightarrow> string \<Rightarrow> string" where
  "replace s pat rep =
     (let i = indexOf s pat in
      if i < 0 then s
      else let pre = take (nat i) s; post = drop (nat i + length pat) s
           in pre @ getSubstitution pat pre post rep @ post)"

section \<open>Locale paths (the head script of the site configuration)\<close>

text \<open>\<open>/-cn\/?$/.test(pathname)\<close>: the path ends with \<open>-cn\<close> or with \<open>-cn/\<close>.\<close>

definition isZhCN :: "string \<Rightarrow> bool" where
  "isZhCN pathname = (endsWith pathname ''-cn'' \<or> endsWith pathname ''-cn/'')"

text \<open>
  \<open>/\/?index(-cn)?/.test(pathname)\<close>: at some position an optional \<open>/\<close> is followed by
  \<open>index\<close>; the optional group \<open>(-cn)?\<close> may match nothing, so it never decides the test.
\<close>

fun test_index :: "string \<Rightarrow> bool" where
  "test_index [] = False"
| "test_index (c # cs) =
     (startsWith (c # cs) ''/index'' \<or> startsWith (c # cs) ''index'' \<or> test_index cs)"

text \<open>\<open>pathname.replace(/\/$/, '-cn/')\<close>: a final \<open>/\<close>, if there is one, becomes \<open>-cn/\<close>.\<close>

definition replace_final_slash :: "string \<Rightarrow> string" where
  "replace_final_slash pathname =
     (if endsWith pathname ''/'' then butlast pathname @ ''-cn/'' else pathname)"

definition getLocalizedPathname :: "string \<Rightarrow> bool \<Rightarrow> string" where
  "getLocalizedPathname path zhCN =
     (let pathname = (if indexOf path ''/'' = 0 then path else ''/'' @ path) in
      if \<not> zhCN then
        (if test_index pathname then ''/'' else replace pathname ''-cn'' '''')
      else if pathname = ''/'' then ''/index-cn''
      else if indexOf pathname ''/'' = int (length pathname) - 1 then
        replace_final_slash pathname
      else pathname @ ''-cn'')"

text \<open>
  The first line of \<open>getLocalizedPathname\<close> by itself, for the proofs: the path with a
  leading \<open>/\<close>.
\<close>

definition pathname_of :: "string \<Rightarrow> string" where
  "pathname_of path = (if indexOf path ''/'' = 0 then path else ''/'' @ path)"

section \<open>White space\<close>

text \<open>
  The characters that \<open>String.prototype.trim\<close> removes and that \<open>\s\<close> matches in a
  regular expression (the standard's WhiteSpace and LineTerminator), each as its UTF-8
  bytes: U+0009 to U+000D, U+0020, U+00A0, U+1680, U+2000 to U+200A, U+2028, U+2029,
  U+202F, U+205F, U+3000 and U+FEFF.
\<close>

definition whiteSpace :: "string list" where
  "whiteSpace =
     [[CHR 0x09], [CHR 0x0A], [CHR 0x0B], [CHR 0x0C], [CHR 0x0D], [CHR 0x20],
      [CHR 0xC2, CHR 0xA0],
      [CHR 0xE1, CHR 0x9A, CHR 0x80],
      [CHR 0xE2, CHR 0x80, CHR 0x80], [CHR 0xE2, CHR 0x80, CHR 0x81],
      [CHR 0xE2, CHR 0x80, CHR 0x82], [CHR 0xE2, CHR 0x80, CHR 0x83],
      [CHR 0xE2, CHR 0x80, CHR 0x84], [CHR 0xE2, CHR 0x80, CHR 0x85],
      [CHR 0xE2, CHR 0x80, CHR 0x86], [CHR 0xE2, CHR 0x80, CHR 0x87],
      [CHR 0xE2, CHR 0x80, CHR 0x88], [CHR 0xE2, CHR 0x80, CHR 0x89],
      [CHR 0xE2, CHR 0x80, CHR 0x8A],
      [CHR 0xE2, CHR 0x80, CHR 0xA8], [CHR 0xE2, CHR 0x80, CHR 0xA9],
      [CHR 0xE2, CHR 0x80, CHR 0xAF],
      [CHR 0xE2, CHR 0x81, CHR 0x9F],
      [CHR 0xE3, CHR 0x80, CHR 0x80],
      [CHR 0xEF, CHR 0xBB, CHR 0xBF]]"

text \<open>The number of bytes of the white-space character at the start (at the end), 0 for none.\<close>

definition ws_start :: "string \<Rightarrow> nat" where
  "ws_start s = (case find (startsWith s) whiteSpace of None \<Rightarrow> 0 | Some w \<Rightarrow> length w)"

definition ws_end :: "string \<Rightarrow> nat" where
  "ws_end s = (case find (endsWith s) whiteSpace of None \<Rightarrow> 0 | Some w \<Rightarrow> length w)"

function trimStart :: "string \<Rightarrow> string" where
  "trimStart s = (if ws_start s = 0 then s else trimStart (drop (ws_start s) s))"
  by pat_completeness auto
termination
proof (relation "measure length")
  fix s assume "ws_start s \<noteq> 0"
  moreover have "ws_start s \<le> length s"
    by (auto simp: ws_start_def startsWith_def find_Some_iff split: option.splits)
       (metis length_take min.cobounded1)
  ultimately show "(drop (ws_start s) s, s) \<in> measure length" by simp
qed simp

function trimEnd :: "string \<Rightarrow> string" where
  "trimEnd s = (if ws_end s = 0 then s else trimEnd (take (length s - ws_end s) s))"
  by pat_completeness auto
termination
proof (relation "measure length")
  fix s assume "ws_end s \<noteq> 0"
  moreover have "ws_end s \<le> length s"
    by (auto simp: ws_end_def endsWith_def find_Some_iff split: option.splits)
  ultimately show "(take (length s - ws_end s) s, s) \<in> measure length" by simp
qed simp

declare trimStart.simps [simp del] trimEnd.simps [simp del]

definition trim :: "string \<Rightarrow> string" where
  "trim s = trimEnd (trimStart s)"

section \<open>The demo metadata parser (\<open>generatePreviewerProps\<close>)\<close>

text \<open>\<open>md.split('\n')\<close> and \<open>lines.join(sep)\<close>.\<close>

fun split_nl :: "string \<Rightarrow> string list" where
  "split_nl [] = [[]]"
| "split_nl (c # cs) =
     (if c = CHR 0x0A then [] # split_nl cs
      else case split_nl cs of [] \<Rightarrow> [[c]] | l # ls \<Rightarrow> (c # l) # ls)"

fun join :: "string \<Rightarrow> string list \<Rightarrow> string" where
  "join sep [] = []"
| "join sep [l] = l"
| "join sep (l # l' # ls) = l @ sep @ join sep (l' # ls)"

text \<open>
  \<open>.replace(/<\/?style>/g, '')\<close>: every \<open><style>\<close> and \<open></style>\<close> is removed, scanning from
  the left and continuing after each match.
\<close>

function remove_style_tags :: "string \<Rightarrow> string" where
  "remove_style_tags [] = []"
| "remove_style_tags (c # cs) =
     (if startsWith (c # cs) ''<style>'' then remove_style_tags (drop 7 (c # cs))
      else if startsWith (c # cs) ''</style>'' then remove_style_tags (drop 8 (c # cs))
      else c # remove_style_tags cs)"
  by pat_completeness auto
termination
  by (relation "measure length") auto

text \<open>
  \<open>.replace(/```(\s*css)/g, '')\<close>: three backquotes, any white space, then \<open>css\<close>. White
  space never begins with \<open>c\<close>, so the greedy \<open>\s*\<close> takes all of it and the match succeeds
  exactly if \<open>css\<close> follows.
\<close>

function remove_css_fence :: "string \<Rightarrow> string" where
  "remove_css_fence [] = []"
| "remove_css_fence (c # cs) =
     (if startsWith (c # cs) ''```'' \<and> startsWith (trimStart (drop 3 (c # cs))) ''css''
      then remove_css_fence (drop 3 (trimStart (drop 3 (c # cs))))
      else c # remove_css_fence cs)"
  by pat_completeness auto
termination
proof (relation "measure length")
  fix c cs
  assume "startsWith (c # cs) ''```'' \<and> startsWith (trimStart (drop 3 (c # cs))) ''css''"
  have le: "length (trimStart s) \<le> length s" for s
  proof (induction s rule: trimStart.induct)
    case (1 s)
    show ?case
    proof (cases "ws_start s = 0")
      case True
      then show ?thesis by (subst trimStart.simps) simp
    next
      case False
      with 1 have "length (trimStart (drop (ws_start s) s)) \<le> length (drop (ws_start s) s)"
        by simp
      with False show ?thesis by (subst trimStart.simps) simp
    qed
  qed
  have "length (trimStart (drop 3 (c # cs))) \<le> length (drop 3 (c # cs))" by (rule le)
  then show "(drop 3 (trimStart (drop 3 (c # cs))), c # cs) \<in> measure length" by simp
qed simp_all

text \<open>
  \<open>getBlockName\<close>: the name a line gives to the block it starts, \<open>None\<close> for \<open>null\<close>.
\<close>

definition getBlockName :: "string \<Rightarrow> string option" where
  "getBlockName text =
     (if startsWith text ''## '' then Some (trim (replace text ''## '' ''''))
      else if startsWith text ''```css'' \<or> startsWith text ''<style>'' then Some ''style''
      else None)"

text \<open>
  \<open>blocks\<close> is a plain object used as a dictionary: an association list in insertion
  order. \<open>blocks[name] = fullText\<close> creates or overwrites the property, except for the
  name \<open>__proto__\<close>: that one is the accessor inherited from \<open>Object.prototype\<close>, whose
  setter ignores a string, so the object is left as it was.
\<close>

type_synonym blocks = "(string \<times> string) list"

definition assign :: "blocks \<Rightarrow> string \<Rightarrow> string \<Rightarrow> blocks" where
  "assign blocks name fullText =
     (if name = ''__proto__'' then blocks else AList.update name fullText blocks)"

definition fillBlock :: "blocks \<Rightarrow> string \<Rightarrow> string list \<Rightarrow> blocks" where
  "fillBlock blocks name lineList =
     (if lineList \<noteq> [] then
        (let fullText =
           (if name = ''style''
            then remove_css_fence (remove_style_tags (join [CHR 0x0A] lineList))
            else join [CHR 0x0A] (drop 1 lineList))
         in assign blocks name fullText)
      else blocks)"

text \<open>
  The loop over the lines, on the state \<open>(blockName, cacheList, blocks)\<close>. A name counts
  only if it is truthy: \<open>null\<close> and the empty string both leave the line in the current
  block. \<open>parseBlocks\<close> is the body of \<open>if (md) { ... }\<close> from \<open>const blocks = {}\<close> to the
  last call of \<open>fillBlock\<close>, which \<open>finish\<close> names for the proofs; the code runs it for a
  companion file that is not empty.
\<close>

fun parseLines :: "string list \<Rightarrow> string \<times> string list \<times> blocks \<Rightarrow> string \<times> string list \<times> blocks" where
  "parseLines [] st = st"
| "parseLines (line # lines) (blockName, cacheList, blocks) =
     (case getBlockName line of
        Some nextBlockName \<Rightarrow>
          (if nextBlockName \<noteq> []
           then parseLines lines (nextBlockName, [line], fillBlock blocks blockName cacheList)
           else parseLines lines (blockName, cacheList @ [line], blocks))
      | None \<Rightarrow> parseLines lines (blockName, cacheList @ [line], blocks))"

definition parseBlocks :: "string \<Rightarrow> blocks" where
  "parseBlocks md =
     (case parseLines (split_nl md) ([], [], []) of
        (blockName, cacheList, blocks) \<Rightarrow> fillBlock blocks blockName cacheList)"








text \<open>The document of the example: two descriptions and a fenced style block.\<close>

definition example_md :: string where
  "example_md =
     ''## en-US\<newline>Hello\<newline>\<newline>## zh-CN\<newline>'' @
     [CHR 0xE4, CHR 0xBD, CHR 0xA0, CHR 0xE5, CHR 0xA5, CHR 0xBD] @
     ''\<newline>\<newline>```css\<newline>.a{color:red}\<newline>```''"

section \<open>The MD5 digest (\<open>createHash('md5')\<close> of Node's \<open>crypto\<close>)\<close>

text \<open>
  \<open>getHash\<close> calls the MD5 implementation of the platform. It is written out here as RFC
  1321 defines it, on the bytes of the string: Node encodes a string as UTF-8 before it
  hashes it, which are the bytes of the model. The theorems below never unfold the digest:
  they hold for whatever function computes it.
\<close>

definition md5_K :: "32 word list" where
  "md5_K =
     [0xd76aa478, 0xe8c7b756, 0x242070db, 0xc1bdceee,
      0xf57c0faf, 0x4787c62a, 0xa8304613, 0xfd469501,
      0x698098d8, 0x8b44f7af, 0xffff5bb1, 0x895cd7be,
      0x6b901122, 0xfd987193, 0xa679438e, 0x49b40821,
      0xf61e2562, 0xc040b340, 0x265e5a51, 0xe9b6c7aa,
      0xd62f105d, 0x02441453, 0xd8a1e681, 0xe7d3fbc8,
      0x21e1cde6, 0xc33707d6, 0xf4d50d87, 0x455a14ed,
      0xa9e3e905, 0xfcefa3f8, 0x676f02d9, 0x8d2a4c8a,
      0xfffa3942, 0x8771f681, 0x6d9d6122, 0xfde5380c,
      0xa4beea44, 0x4bdecfa9, 0xf6bb4b60, 0xbebfbc70,
      0x289b7ec6, 0xeaa127fa, 0xd4ef3085, 0x04881d05,
      0xd9d4d039, 0xe6db99e5, 0x1fa27cf8, 0xc4ac5665,
      0xf4292244, 0x432aff97, 0xab9423a7, 0xfc93a039,
      0x655b59c3, 0x8f0ccc92, 0xffeff47d, 0x85845dd1,
      0x6fa87e4f, 0xfe2ce6e0, 0xa3014314, 0x4e0811a1,
      0xf7537e82, 0xbd3af235, 0x2ad7d2bb, 0xeb86d391]"

definition md5_s :: "nat list" where
  "md5_s =
     [7, 12, 17, 22, 7, 12, 17, 22, 7, 12, 17, 22, 7, 12, 17, 22,
      5, 9, 14, 20, 5, 9, 14, 20, 5, 9, 14, 20, 5, 9, 14, 20,
      4, 11, 16, 23, 4, 11, 16, 23, 4, 11, 16, 23, 4, 11, 16, 23,
      6, 10, 15, 21, 6, 10, 15, 21, 6, 10, 15, 21, 6, 10, 15, 21]"

text \<open>The message, the byte \<open>0x80\<close>, zeros up to 56 modulo 64, and the bit length in 8 bytes.\<close>

definition md5_pad :: "string \<Rightarrow> nat list" where
  "md5_pad msg =
     map of_char msg @ [0x80] @ replicate ((119 - length msg mod 64) mod 64) 0 @
     map (\<lambda>i. (8 * length msg div 256 ^ i) mod 256) [0..<8]"

text \<open>The 16 little-endian words of the 64-byte block number \<open>j\<close>.\<close>

definition md5_block :: "nat list \<Rightarrow> nat \<Rightarrow> 32 word list" where
  "md5_block bytes j =
     map (\<lambda>w. word_of_nat
            (bytes ! (64 * j + 4 * w) + 256 * bytes ! (64 * j + 4 * w + 1) +
             65536 * bytes ! (64 * j + 4 * w + 2) + 16777216 * bytes ! (64 * j + 4 * w + 3)))
       [0..<16]"

definition md5_step ::
  "32 word list \<Rightarrow> 32 word \<times> 32 word \<times> 32 word \<times> 32 word \<Rightarrow> nat \<Rightarrow>
   32 word \<times> 32 word \<times> 32 word \<times> 32 word" where
  "md5_step M st i =
     (case st of (A, B, C, D) \<Rightarrow>
        let F = (if i < 16 then or (and B C) (and (not B) D)
                 else if i < 32 then or (and D B) (and (not D) C)
                 else if i < 48 then xor B (xor C D)
                 else xor C (or B (not D)));
            g = (if i < 16 then i
                 else if i < 32 then (5 * i + 1) mod 16
                 else if i < 48 then (3 * i + 5) mod 16
                 else (7 * i) mod 16);
            F' = F + A + md5_K ! i + M ! g
        in (D, B + word_rotl (md5_s ! i) F', B, C))"

definition md5_compress ::
  "nat list \<Rightarrow> 32 word \<times> 32 word \<times> 32 word \<times> 32 word \<Rightarrow> nat \<Rightarrow>
   32 word \<times> 32 word \<times> 32 word \<times> 32 word" where
  "md5_compress bytes h j =
     (case h of (a0, b0, c0, d0) \<Rightarrow>
        case foldl (md5_step (md5_block bytes j)) (a0, b0, c0, d0) [0..<64] of
          (A, B, C, D) \<Rightarrow> (a0 + A, b0 + B, c0 + C, d0 + D))"

definition hex_digit :: "nat \<Rightarrow> char" where
  "hex_digit n = ''0123456789abcdef'' ! (n mod 16)"

definition hex_le32 :: "32 word \<Rightarrow> string" where
  "hex_le32 w =
     concat (map (\<lambda>i. let b = (unat w div 256 ^ i) mod 256
                       in [hex_digit (b div 16), hex_digit (b mod 16)]) [0..<4])"

definition md5_hex :: "string \<Rightarrow> string" where
  "md5_hex msg =
     (let bytes = md5_pad msg in
      case foldl (md5_compress bytes) (0x67452301, 0xefcdab89, 0x98badcfe, 0x10325476)
             [0..<length bytes div 64] of
        (a, b, c, d) \<Rightarrow> hex_le32 a @ hex_le32 b @ hex_le32 c @ hex_le32 d)"

text \<open>
  \<open>getHash(str, length = 8)\<close> is
  \<open>createHash('md5').update(str).digest('hex').slice(0, length)\<close>.
\<close>

definition getHash :: "string \<Rightarrow> nat \<Rightarrow> string" where
  "getHash str len = take len (md5_hex str)"

section \<open>The export plugin (\<open>RoutesPlugin\<close>)\<close>

text \<open>
  What the plugin reads from \<open>api\<close>: \<open>api.paths.absOutputPath\<close>, \<open>api.userConfig.publicPath\<close>
  (\<open>None\<close> when the user configuration leaves it out) and \<open>api.config.publicPath\<close>.
\<close>

record api =
  absOutputPath :: string
  userPublicPath :: "string option"
  configPublicPath :: string

text \<open>
  The output directory and the log. \<open>files\<close> maps a path to the content of the file
  there; \<open>writes\<close> lists the calls of \<open>fs.writeFileSync\<close> in order, each with its path and
  content; \<open>events\<close> lists the calls of \<open>api.logger.event\<close> (without the colours of
  \<open>chalk\<close>). A write that fails throws and ends the build; the model follows the runs in
  which the file system accepts every write.
\<close>

datatype event = WriteTo string | Include string string nat

record build =
  files :: "string \<rightharpoonup> string"
  writes :: "(string \<times> string) list"
  events :: "event list"

text \<open>
  \<open>path.join(dir, fileName)\<close> for a directory and a plain file name. The key of an Emotion
  cache consists of lower-case letters and \<open>-\<close>, the digest of hexadecimal digits, so the
  file name has no separator and no \<open>..\<close> segment for \<open>path.join\<close> to resolve.
\<close>

definition path_join :: "string \<Rightarrow> string \<Rightarrow> string" where
  "path_join dir fileName = dir @ ''/'' @ fileName"

text \<open>The template \<open>style-${key}.${getHash(hashKey)}.css\<close>.\<close>

definition cssFileName :: "string \<Rightarrow> string \<Rightarrow> string" where
  "cssFileName key hashKey = ''style-'' @ key @ ''.'' @ getHash hashKey 8 @ ''.css''"

definition writeCSSFile :: "api \<Rightarrow> string \<Rightarrow> string \<Rightarrow> string \<Rightarrow> build \<Rightarrow> string \<times> build" where
  "writeCSSFile api key hashKey cssString b =
     (let fileName = cssFileName key hashKey;
          filePath = path_join (absOutputPath api) fileName
      in if files b filePath = None then
           (fileName,
            b\<lparr>files := (files b)(filePath \<mapsto> cssString),
              writes := writes b @ [(filePath, cssString)],
              events := events b @ [WriteTo filePath]\<rparr>)
         else (fileName, b))"

text \<open>\<open>api.userConfig.publicPath || api.config.publicPath\<close>: an empty string is falsy too.\<close>

definition publicPath :: "api \<Rightarrow> string" where
  "publicPath api =
     (case userPublicPath api of
        Some p \<Rightarrow> (if p \<noteq> [] then p else configPublicPath api)
      | None \<Rightarrow> configPublicPath api)"

definition addLinkStyle :: "api \<Rightarrow> string \<Rightarrow> string \<Rightarrow> bool \<Rightarrow> string" where
  \<open>addLinkStyle api html cssFile prepend =
     (let prefix = publicPath api in
      if prepend then
        replace html ''<head>'' (''<head><link rel="stylesheet" href="'' @ prefix @ cssFile @ ''">'')
      else
        replace html ''</head>'' (''<link rel="stylesheet" href="'' @ prefix @ cssFile @ ''"></head>''))\<close>

text \<open>
  A style cache of \<open>global.__ANTD_STYLE_CACHE_MANAGER_FOR_SSR__.getCacheList()\<close>: its key,
  and what \<open>createEmotionServer(cache).extractCritical\<close> returns for a page, a function
  of the collaborating library that the plugin only calls.
\<close>

record critical =
  css :: string
  ids :: "string list"

record cache =
  cache_key :: string
  extractCritical :: "string \<Rightarrow> critical"

record emotion_style = critical +
  key :: string
  tag :: string

text \<open>The object that the callback of \<open>map\<close> returns for a cache with styles on the page.\<close>

definition styleOf :: "cache \<Rightarrow> critical \<Rightarrow> emotion_style" where
  \<open>styleOf cache result =
     \<lparr>css = css result, ids = ids result, key = cache_key cache,
      tag = ''<style data-emotion="'' @ cache_key cache @ '' '' @ join '' '' (ids result) @ ''">'' @
            css result @ ''</style>''\<rparr>\<close>

definition extractEmotionStyle :: "cache list \<Rightarrow> string \<Rightarrow> emotion_style list" where
  "extractEmotionStyle cacheList html =
     (let styles =
        map (\<lambda>cache.
               let result = extractCritical cache html
               in if css result = [] then None else Some (styleOf cache result))
            cacheList
      in map the (filter (\<lambda>s. s \<noteq> None) styles))"

text \<open>
  The callback of \<open>api.modifyExportHTMLFiles\<close>. \<open>exportStyle\<close> is the body of
  \<open>styles.forEach\<close>, \<open>exportFile\<close> the body of \<open>map\<close>; both pass the build state on.
\<close>

record html_file =
  path :: string
  content :: string

definition exportStyle ::
  "api \<Rightarrow> html_file \<times> build \<Rightarrow> emotion_style \<Rightarrow> html_file \<times> build" where
  "exportStyle api st result =
     (case st of (file, b) \<Rightarrow>
        let b1 = b\<lparr>events := events b @ [Include (path file) (key result) (length (ids result))]\<rparr>
        in case writeCSSFile api (key result) (join [] (ids result)) (css result) b1 of
             (cssFile, b2) \<Rightarrow>
               (file\<lparr>content := addLinkStyle api (content file) cssFile False\<rparr>, b2))"

definition exportFile :: "api \<Rightarrow> cache list \<Rightarrow> html_file \<Rightarrow> build \<Rightarrow> html_file \<times> build" where
  "exportFile api cacheList file b =
     (let styles = extractEmotionStyle cacheList (content file)
      in foldl (exportStyle api) (file, b) styles)"

fun exportFiles :: "api \<Rightarrow> cache list \<Rightarrow> html_file list \<Rightarrow> build \<Rightarrow> html_file list \<times> build" where
  "exportFiles api cacheList [] b = ([], b)"
| "exportFiles api cacheList (file # rest) b =
     (case exportFile api cacheList file b of
        (file', b') \<Rightarrow>
          (case exportFiles api cacheList rest b' of
             (rest', b'') \<Rightarrow> (file' # rest', b'')))"

definition modifyExportHTMLFiles ::
  "api \<Rightarrow> cache list \<Rightarrow> html_file list \<Rightarrow> build \<Rightarrow> html_file list \<times> build" where
  "modifyExportHTMLFiles api cacheList htmlFiles b =
     exportFiles api cacheList (filter (\<lambda>f. \<not> js_includes (path f) '':'') htmlFiles) b"

text \<open>A sequence of calls of \<open>writeCSSFile\<close>, each with its key, hash key and CSS text.\<close>

definition publishAll :: "api \<Rightarrow> (string \<times> string \<times> string) list \<Rightarrow> build \<Rightarrow> build" where
  "publishAll api calls b =
     foldl (\<lambda>b call. case call of (k, hashKey, cssString) \<Rightarrow>
                        snd (writeCSSFile api k hashKey cssString b)) b calls"

text \<open>
  Names for the statements: the link element that \<open>addLinkStyle\<close> inserts, the path of the
  file that a call of \<open>writeCSSFile\<close> looks for, and a call as a pair of that path and
  its CSS text.
\<close>

definition linkTag :: "api \<Rightarrow> string \<Rightarrow> string" where
  \<open>linkTag api cssFile = ''<link rel="stylesheet" href="'' @ publicPath api @ cssFile @ ''">''\<close>

definition cssFilePath :: "api \<Rightarrow> string \<Rightarrow> string \<Rightarrow> string" where
  "cssFilePath api k hashKey = path_join (absOutputPath api) (cssFileName k hashKey)"

definition callEntry :: "api \<Rightarrow> string \<times> string \<times> string \<Rightarrow> string \<times> string" where
  "callEntry api call = (case call of (k, hashKey, cssString) \<Rightarrow> (cssFilePath api k hashKey, cssString))"

text \<open>
  A configuration, an empty output directory, and an output directory that holds a file
  of an earlier build under the name that key \<open>antd\<close> and hash key \<open>abc\<close> derive.
\<close>

definition example_api :: api where
  "example_api = \<lparr>absOutputPath = ''/dist'', userPublicPath = None, configPublicPath = ''/''\<rparr>"

definition empty_build :: build where
  "empty_build = \<lparr>files = Map.empty, writes = [], events = []\<rparr>"

definition old_build :: build where
  "old_build =
     \<lparr>files = [path_join ''/dist'' (cssFileName ''antd'' ''abc'') \<mapsto> ''.old{}''],
      writes = [], events = []\<rparr>"

section \<open>Properties of the string operations and the locale paths\<close>

lemma indexOf_ge: "- 1 \<le> indexOf s p"
  by (induction s) (auto simp: Let_def)

lemma indexOf_zero_iff: "indexOf s p = 0 \<longleftrightarrow> startsWith s p"
proof (cases s)
  case Nil
  then show ?thesis by (auto simp: startsWith_def)
next
  case (Cons c cs)
  have "- 1 \<le> indexOf cs p" by (rule indexOf_ge)
  then show ?thesis using Cons by (auto simp: Let_def)
qed

lemma startsWith_slash: "startsWith s ''/'' \<longleftrightarrow> (\<exists>t. s = CHR ''/'' # t)"
  by (cases s) (auto simp: startsWith_def)

lemma pathname_of_slash: "\<exists>t. pathname_of p = CHR ''/'' # t"
  by (auto simp: pathname_of_def indexOf_zero_iff startsWith_slash)

lemma pathname_of_id: "pathname_of (CHR ''/'' # t) = CHR ''/'' # t"
  by (simp add: pathname_of_def startsWith_def)

lemma glp_True:
  "getLocalizedPathname p True =
     (if pathname_of p = ''/'' then ''/index-cn'' else pathname_of p @ ''-cn'')"
proof -
  obtain t where t: "pathname_of p = CHR ''/'' # t" using pathname_of_slash by blast
  have "indexOf (pathname_of p) ''/'' = 0" using t by (simp add: startsWith_def)
  moreover have "t \<noteq> [] \<Longrightarrow> int (length (pathname_of p)) - 1 \<noteq> 0" using t by simp
  ultimately show ?thesis using t
    unfolding getLocalizedPathname_def pathname_of_def [symmetric] Let_def
    by (cases "t = []") auto
qed

lemma endsWith_append: "endsWith (s @ p) p"
  by (simp add: endsWith_def)

lemma isZhCN_glp_True: "isZhCN (getLocalizedPathname p True)"
  unfolding glp_True isZhCN_def
  by (auto simp: endsWith_def)

lemma glp_True_shape: "\<exists>r. getLocalizedPathname p True = CHR ''/'' # r \<and> r \<noteq> []"
proof -
  obtain t where t: "pathname_of p = CHR ''/'' # t" using pathname_of_slash by blast
  show ?thesis by (cases "t = []") (simp_all add: glp_True t)
qed

lemma glp_True_twice:
  "getLocalizedPathname (getLocalizedPathname p True) True = getLocalizedPathname p True @ ''-cn''"
proof -
  obtain r where r: "getLocalizedPathname p True = CHR ''/'' # r" "r \<noteq> []"
    using glp_True_shape by blast
  show ?thesis using r(2) unfolding r(1) by (simp add: glp_True pathname_of_id)
qed

lemma js_includes_Cons:
  "js_includes (c # cs) p \<longleftrightarrow> startsWith (c # cs) p \<or> js_includes cs p"
  using indexOf_ge [of cs p] by (auto simp: js_includes_def Let_def)

lemma js_includes_Nil: "js_includes [] p \<longleftrightarrow> p = []"
  by (simp add: js_includes_def)

lemma js_includes_mid: "js_includes (a @ p @ b) p"
proof (induction a)
  case Nil
  have "startsWith (p @ b) p" by (simp add: startsWith_def)
  then have "indexOf (p @ b) p = 0" by (simp only: indexOf_zero_iff)
  then show ?case by (simp add: js_includes_def)
next
  case (Cons c a)
  then show ?case by (simp add: js_includes_Cons)
qed

lemma endsWith_split: "endsWith s p \<Longrightarrow> \<exists>a. s = a @ p"
  unfolding endsWith_def by (metis append_take_drop_id)

lemma endsWith_includes: "endsWith s p \<Longrightarrow> js_includes s p"
proof -
  assume "endsWith s p"
  then obtain a where "s = a @ p @ []" using endsWith_split by fastforce
  then show ?thesis using js_includes_mid by metis
qed

lemma isZhCN_includes: "isZhCN s \<Longrightarrow> js_includes s ''-cn''"
proof -
  assume "isZhCN s"
  then consider "endsWith s ''-cn''" | "endsWith s ''-cn/''" by (auto simp: isZhCN_def)
  then show ?thesis
  proof cases
    case 1 then show ?thesis by (rule endsWith_includes)
  next
    case 2
    then obtain a where "s = a @ ''-cn/''" using endsWith_split by blast
    then have "s = a @ ''-cn'' @ ''/''" by simp
    then show ?thesis using js_includes_mid by metis
  qed
qed

lemma test_index_iff: "test_index s \<longleftrightarrow> js_includes s ''index''"
proof (induction s)
  case Nil
  then show ?case by (simp add: js_includes_Nil)
next
  case (Cons c cs)
  have "startsWith (c # cs) ''/index'' \<Longrightarrow> js_includes cs ''index''"
  proof -
    assume "startsWith (c # cs) ''/index''"
    then have "startsWith cs ''index''" by (auto simp: startsWith_def)
    then have "indexOf cs ''index'' = 0" by (simp only: indexOf_zero_iff)
    then show ?thesis by (simp add: js_includes_def)
  qed
  with Cons show ?case by (auto simp: js_includes_Cons)
qed

lemma replace_empty:
  "replace s pat [] =
     (if indexOf s pat < 0 then s
      else take (nat (indexOf s pat)) s @ drop (nat (indexOf s pat) + length pat) s)"
  by (simp add: replace_def Let_def)

lemma replace_absent: "\<not> js_includes s pat \<Longrightarrow> replace s pat rep = s"
  by (simp add: replace_def js_includes_def)

lemma glp_False:
  "getLocalizedPathname p False =
     (if js_includes (pathname_of p) ''index'' then ''/'' else replace (pathname_of p) ''-cn'' [])"
  unfolding getLocalizedPathname_def pathname_of_def [symmetric] Let_def
  by (simp add: test_index_iff)

lemma replace_keeps_head:
  assumes "\<not> startsWith (c # t) pat"
  shows "\<exists>r. replace (c # t) pat [] = c # r"
proof -
  define i where "i = indexOf (c # t) pat"
  have "i \<noteq> 0" unfolding i_def using assms by (simp only: indexOf_zero_iff) simp
  moreover have "- 1 \<le> i" unfolding i_def by (rule indexOf_ge)
  ultimately consider "i < 0" | "0 < nat i" by linarith
  then show ?thesis
  proof cases
    case 1
    then show ?thesis by (simp only: replace_empty i_def [symmetric]) simp
  next
    case 2
    then obtain k where k: "nat i = Suc k" by (cases "nat i") auto
    from 2 have "\<not> i < 0" by simp
    then show ?thesis by (simp only: replace_empty i_def [symmetric] k) simp
  qed
qed

lemma glp_False_slash: "\<exists>r. getLocalizedPathname p False = CHR ''/'' # r"
proof -
  obtain t where t: "pathname_of p = CHR ''/'' # t" using pathname_of_slash by blast
  have "\<not> startsWith (CHR ''/'' # t) ''-cn''" by (simp add: startsWith_def)
  then have "\<exists>r. replace (CHR ''/'' # t) ''-cn'' [] = CHR ''/'' # r"
    by (rule replace_keeps_head)
  then show ?thesis by (auto simp add: glp_False t)
qed

lemma glp_False_fixed:
  assumes "\<not> js_includes r ''-cn''" "\<not> js_includes r ''index''" "r = CHR ''/'' # t"
  shows "getLocalizedPathname r False = r"
  using assms by (simp add: glp_False pathname_of_id replace_absent)

lemma glp_False_idem:
  assumes "\<not> js_includes (getLocalizedPathname p False) ''-cn''"
      and "\<not> js_includes (getLocalizedPathname p False) ''index''"
  shows "getLocalizedPathname (getLocalizedPathname p False) False = getLocalizedPathname p False"
  using glp_False_slash [of p] assms glp_False_fixed by blast

lemma indexOf_append_cn:
  "\<not> js_includes q ''-cn'' \<Longrightarrow>
   indexOf (q @ CHR ''-'' # CHR ''c'' # CHR ''n'' # rest) ''-cn'' = int (length q)"
proof (induction q)
  case Nil
  have "startsWith (CHR ''-'' # CHR ''c'' # CHR ''n'' # rest) ''-cn''" by (simp add: startsWith_def)
  then show ?case by (simp only: indexOf_zero_iff [symmetric]) simp
next
  case (Cons c cs)
  from Cons.prems have nsw: "\<not> startsWith (c # cs) ''-cn''" and ninc: "\<not> js_includes cs ''-cn''"
    by (simp_all add: js_includes_Cons)
  have "\<not> startsWith (c # cs @ CHR ''-'' # CHR ''c'' # CHR ''n'' # rest) ''-cn''"
  proof (cases cs)
    case Nil
    then show ?thesis by (simp add: startsWith_def)
  next
    case (Cons d ds)
    show ?thesis
    proof (cases ds)
      case Nil
      with Cons show ?thesis by (simp add: startsWith_def)
    next
      case (Cons e es)
      with \<open>cs = d # ds\<close> nsw show ?thesis by (simp add: startsWith_def)
    qed
  qed
  moreover have "indexOf (cs @ CHR ''-'' # CHR ''c'' # CHR ''n'' # rest) ''-cn'' = int (length cs)"
    using Cons.IH ninc by simp
  ultimately show ?case by (simp add: Let_def)
qed

lemma replace_append_cn:
  assumes "\<not> js_includes q ''-cn''"
  shows "replace (q @ CHR ''-'' # CHR ''c'' # CHR ''n'' # rest) ''-cn'' [] = q @ rest"
  by (simp only: replace_empty indexOf_append_cn [OF assms]) simp

lemma pathname_of_append:
  "pathname_of (q @ CHR ''-'' # rest) = pathname_of q @ CHR ''-'' # rest"
proof (cases q)
  case Nil
  have "\<not> startsWith (CHR ''-'' # rest) ''/''" by (simp add: startsWith_def)
  then show ?thesis unfolding Nil pathname_of_def
    by (simp only: indexOf_zero_iff) (simp add: startsWith_def)
next
  case (Cons c cs)
  have "startsWith ((c # cs) @ CHR ''-'' # rest) ''/'' = startsWith (c # cs) ''/''"
    by (simp add: startsWith_def)
  then show ?thesis unfolding Cons pathname_of_def by (simp only: indexOf_zero_iff) simp
qed

lemma pathname_of_no_cn:
  assumes "\<not> js_includes q ''-cn''"
  shows "\<not> js_includes (pathname_of q) ''-cn''"
  using assms by (simp add: pathname_of_def js_includes_Cons startsWith_def)

lemma not_isZhCN_slash: "\<not> isZhCN ''/''"
  by (simp add: isZhCN_def endsWith_def)

lemma isZhCN_append_slash: "isZhCN (s @ ''/'') \<Longrightarrow> isZhCN s"
  by (auto simp: isZhCN_def endsWith_def)

lemma glp_False_cn_free:
  assumes "\<not> js_includes q ''-cn''"
  shows "\<not> isZhCN (getLocalizedPathname q False)"
proof -
  have n: "\<not> js_includes (pathname_of q) ''-cn''" using assms by (rule pathname_of_no_cn)
  then have "\<not> isZhCN (pathname_of q)" using isZhCN_includes by blast
  then show ?thesis by (simp add: glp_False not_isZhCN_slash replace_absent [OF n])
qed

lemma glp_False_suffix:
  assumes "\<not> js_includes q ''-cn''"
  shows "\<not> isZhCN (getLocalizedPathname (q @ ''-cn'') False)"
    and "\<not> isZhCN (getLocalizedPathname (q @ ''-cn/'') False)"
proof -
  have n: "\<not> js_includes (pathname_of q) ''-cn''" using assms by (rule pathname_of_no_cn)
  then have z: "\<not> isZhCN (pathname_of q)" using isZhCN_includes by blast
  then have z': "\<not> isZhCN (pathname_of q @ ''/'')" using isZhCN_append_slash by blast
  show "\<not> isZhCN (getLocalizedPathname (q @ ''-cn'') False)"
    using z by (simp add: glp_False pathname_of_append not_isZhCN_slash replace_append_cn [OF n])
  show "\<not> isZhCN (getLocalizedPathname (q @ ''-cn/'') False)"
    using z' by (simp add: glp_False pathname_of_append not_isZhCN_slash replace_append_cn [OF n])
qed

lemma glp_False_index:
  "js_includes p ''index'' \<Longrightarrow> getLocalizedPathname p False = ''/''"
  by (simp add: glp_False pathname_of_def js_includes_Cons)

section \<open>Properties of the demo metadata parser\<close>





















section \<open>Properties of the export plugin\<close>

subsection \<open>The style extractor\<close>

lemma extractEmotionStyle_Nil: "extractEmotionStyle [] html = []"
  by (simp add: extractEmotionStyle_def)

lemma extractEmotionStyle_Cons:
  "extractEmotionStyle (c # cl) html =
     (if css (extractCritical c html) = [] then extractEmotionStyle cl html
      else styleOf c (extractCritical c html) # extractEmotionStyle cl html)"
  by (simp add: extractEmotionStyle_def Let_def)

lemma extractEmotionStyle_filter:
  "extractEmotionStyle cl html =
     map (\<lambda>c. styleOf c (extractCritical c html))
       (filter (\<lambda>c. css (extractCritical c html) \<noteq> []) cl)"
  by (induction cl) (simp_all add: extractEmotionStyle_Nil extractEmotionStyle_Cons)

lemma key_styleOf: "key (styleOf c r) = cache_key c"
  by (simp add: styleOf_def)

lemma css_styleOf: "css (styleOf c r) = css r"
  by (simp add: styleOf_def)

lemma extractEmotionStyle_keys:
  "map key (extractEmotionStyle cl html) =
     map cache_key (filter (\<lambda>c. css (extractCritical c html) \<noteq> []) cl)"
  by (simp add: extractEmotionStyle_filter key_styleOf comp_def)

lemma extractEmotionStyle_nonempty:
  "filter (\<lambda>s. css s = []) (extractEmotionStyle cl html) = []"
  by (induction cl) (simp_all add: extractEmotionStyle_Nil extractEmotionStyle_Cons css_styleOf)

subsection \<open>The export of the pages\<close>

lemma path_exportStyle: "path (fst (exportStyle api (f, b) r)) = path f"
  by (simp add: exportStyle_def Let_def split: prod.splits)

lemma path_foldl_exportStyle: "path (fst (foldl (exportStyle api) (f, b) rs)) = path f"
proof (induction rs arbitrary: f b)
  case Nil
  show ?case by simp
next
  case (Cons r rs)
  obtain f' b' where st: "exportStyle api (f, b) r = (f', b')" by (cases "exportStyle api (f, b) r")
  then have "path f' = path f" using path_exportStyle [of api f b r] by simp
  then show ?case using Cons.IH [of f' b'] by (simp add: st)
qed

lemma path_exportFile: "path (fst (exportFile api cl f b)) = path f"
  by (simp add: exportFile_def path_foldl_exportStyle)

lemma paths_exportFiles: "map path (fst (exportFiles api cl fs b)) = map path fs"
proof (induction fs arbitrary: b)
  case Nil
  show ?case by simp
next
  case (Cons f fs)
  obtain f' b' where one: "exportFile api cl f b = (f', b')" by (cases "exportFile api cl f b")
  obtain fs' b'' where rest: "exportFiles api cl fs b' = (fs', b'')"
    by (cases "exportFiles api cl fs b'")
  have "path f' = path f" using path_exportFile [of api cl f b] by (simp add: one)
  moreover have "map path fs' = map path fs" using Cons.IH [of b'] by (simp add: rest)
  ultimately show ?case by (simp add: one rest)
qed

lemma js_includes_char: "js_includes s [c] \<longleftrightarrow> c \<in> set s"
  by (induction s) (auto simp: js_includes_Nil js_includes_Cons startsWith_def)

subsection \<open>The publisher\<close>

lemma fst_writeCSSFile: "fst (writeCSSFile api k h c b) = cssFileName k h"
  by (simp add: writeCSSFile_def Let_def)

lemma cssFileName_eq_iff:
  "cssFileName k h = cssFileName k h' \<longleftrightarrow> getHash h 8 = getHash h' 8"
  by (simp add: cssFileName_def)

lemma writeCSSFile_present:
  "files b (cssFilePath api k h) \<noteq> None \<Longrightarrow> writeCSSFile api k h c b = (cssFileName k h, b)"
  by (auto simp add: writeCSSFile_def cssFilePath_def Let_def)

lemma writeCSSFile_absent:
  "files b (cssFilePath api k h) = None \<Longrightarrow>
   writeCSSFile api k h c b =
     (cssFileName k h,
      b\<lparr>files := (files b)(cssFilePath api k h \<mapsto> c),
        writes := writes b @ [(cssFilePath api k h, c)],
        events := events b @ [WriteTo (cssFilePath api k h)]\<rparr>)"
  by (simp add: writeCSSFile_def cssFilePath_def Let_def)

lemma writeCSSFile_then_present:
  "files (snd (writeCSSFile api k h c b)) (cssFilePath api k h) \<noteq> None"
  by (cases "files b (cssFilePath api k h) = None")
     (simp_all add: writeCSSFile_present writeCSSFile_absent)

lemma writeCSSFile_twice:
  "writeCSSFile api k h c (snd (writeCSSFile api k h c b)) =
     (cssFileName k h, snd (writeCSSFile api k h c b))"
  by (rule writeCSSFile_present) (rule writeCSSFile_then_present)

lemma writes_writeCSSFile:
  "writes (snd (writeCSSFile api k h c b)) =
     writes b @ (if files b (cssFilePath api k h) = None then [(cssFilePath api k h, c)] else [])"
  by (cases "files b (cssFilePath api k h) = None")
     (simp_all add: writeCSSFile_present writeCSSFile_absent)

lemma files_writeCSSFile:
  "files (snd (writeCSSFile api k h c b)) = [cssFilePath api k h \<mapsto> c] ++ files b"
proof (cases "files b (cssFilePath api k h) = None")
  case True
  then show ?thesis
    by (auto simp: writeCSSFile_absent map_add_def fun_eq_iff split: option.splits)
next
  case False
  then show ?thesis
    by (auto simp: writeCSSFile_present map_add_def fun_eq_iff split: option.splits)
qed

subsection \<open>Sequences of calls of the publisher\<close>

lemma publishAll_Nil: "publishAll api [] b = b"
  by (simp add: publishAll_def)

lemma publishAll_Cons:
  "publishAll api ((k, h, c) # calls) b = publishAll api calls (snd (writeCSSFile api k h c b))"
  by (simp add: publishAll_def)

lemma files_publishAll:
  "files (publishAll api calls b) = map_of (map (callEntry api) calls) ++ files b"
proof (induction calls arbitrary: b)
  case Nil
  show ?case by (simp add: publishAll_Nil)
next
  case (Cons call calls)
  obtain k h c where call: "call = (k, h, c)" by (cases call)
  have "files (publishAll api (call # calls) b) =
        map_of (map (callEntry api) calls) ++ ([cssFilePath api k h \<mapsto> c] ++ files b)"
    unfolding call publishAll_Cons Cons.IH files_writeCSSFile ..
  also have "\<dots> = map_of (map (callEntry api) (call # calls)) ++ files b"
    by (auto simp: call callEntry_def map_add_def fun_eq_iff split: option.splits)
  finally show ?case .
qed

lemma files_kept_writeCSSFile:
  "files b p = Some v \<Longrightarrow> files (snd (writeCSSFile api k h c b)) p = Some v"
  by (simp add: files_writeCSSFile map_add_def)

lemma files_kept_publishAll:
  "files b p = Some v \<Longrightarrow> files (publishAll api calls b) p = Some v"
  by (simp add: files_publishAll map_add_def)

lemma writes_step:
  assumes "distinct (map fst (writes b))"
      and "\<And>p v. (p, v) \<in> set (writes b) \<Longrightarrow> files b p = Some v"
  shows "distinct (map fst (writes (snd (writeCSSFile api k h c b))))"
    and "\<And>p v. (p, v) \<in> set (writes (snd (writeCSSFile api k h c b))) \<Longrightarrow>
           files (snd (writeCSSFile api k h c b)) p = Some v"
proof -
  let ?q = "cssFilePath api k h"
  show "distinct (map fst (writes (snd (writeCSSFile api k h c b))))"
  proof (cases "files b ?q = None")
    case True
    have "?q \<notin> fst ` set (writes b)"
    proof
      assume "?q \<in> fst ` set (writes b)"
      then obtain v where "(?q, v) \<in> set (writes b)" by auto
      then have "files b ?q = Some v" by (rule assms(2))
      with True show False by simp
    qed
    with assms(1) True show ?thesis by (simp add: writes_writeCSSFile)
  next
    case False
    then have "writes (snd (writeCSSFile api k h c b)) = writes b"
      by (simp only: writes_writeCSSFile if_False append_Nil2)
    with assms(1) show ?thesis by simp
  qed
  fix p v
  assume pv: "(p, v) \<in> set (writes (snd (writeCSSFile api k h c b)))"
  show "files (snd (writeCSSFile api k h c b)) p = Some v"
  proof (cases "(p, v) \<in> set (writes b)")
    case True
    then have "files b p = Some v" by (rule assms(2))
    then show ?thesis by (rule files_kept_writeCSSFile)
  next
    case False
    with pv have new: "files b ?q = None" "p = ?q" "v = c"
      by (auto simp: writes_writeCSSFile split: if_splits)
    then show ?thesis by (simp add: files_writeCSSFile map_add_def)
  qed
qed

lemma writes_publishAll:
  assumes "distinct (map fst (writes b))"
      and "\<And>p v. (p, v) \<in> set (writes b) \<Longrightarrow> files b p = Some v"
  shows "distinct (map fst (writes (publishAll api calls b))) \<and>
         (\<forall>p v. (p, v) \<in> set (writes (publishAll api calls b)) \<longrightarrow>
                files (publishAll api calls b) p = Some v)"
  using assms
proof (induction calls arbitrary: b)
  case Nil
  then show ?case by (simp add: publishAll_Nil)
next
  case (Cons call calls)
  obtain k h c where call: "call = (k, h, c)" by (cases call)
  show ?case unfolding call publishAll_Cons
  proof (rule Cons.IH)
    show "distinct (map fst (writes (snd (writeCSSFile api k h c b))))"
      using Cons.prems by (rule writes_step(1))
    show "\<And>p v. (p, v) \<in> set (writes (snd (writeCSSFile api k h c b))) \<Longrightarrow>
           files (snd (writeCSSFile api k h c b)) p = Some v"
      using Cons.prems by (rule writes_step(2))
  qed
qed

lemma written_fresh:
  "(p, v) \<in> set (writes (publishAll api calls b)) \<Longrightarrow>
   (p, v) \<in> set (writes b) \<or> files b p = None"
proof (induction calls arbitrary: b)
  case Nil
  then show ?case by (simp add: publishAll_Nil)
next
  case (Cons call calls)
  obtain k h c where call: "call = (k, h, c)" by (cases call)
  let ?b1 = "snd (writeCSSFile api k h c b)"
  from Cons.prems have "(p, v) \<in> set (writes (publishAll api calls ?b1))"
    by (simp add: call publishAll_Cons)
  then have "(p, v) \<in> set (writes ?b1) \<or> files ?b1 p = None" by (rule Cons.IH)
  then show ?case
  proof (elim disjE)
    assume "(p, v) \<in> set (writes ?b1)"
    then show ?thesis by (auto simp: writes_writeCSSFile split: if_splits)
  next
    assume 2: "files ?b1 p = None"
    have "files b p = None"
    proof (cases "files b p")
      case None
      then show ?thesis .
    next
      case (Some w)
      then have "files ?b1 p = Some w" by (rule files_kept_writeCSSFile)
      with 2 show ?thesis by simp
    qed
    then show ?thesis ..
  qed
qed

subsection \<open>The first occurrence of a pattern\<close>

lemma indexOf_startsWith: "0 \<le> indexOf s p \<Longrightarrow> startsWith (drop (nat (indexOf s p)) s) p"
proof (induction s)
  case Nil
  then show ?case by (simp add: startsWith_def split: if_splits)
next
  case (Cons c cs)
  show ?case
  proof (cases "startsWith (c # cs) p")
    case True
    then show ?thesis by simp
  next
    case False
    with Cons.prems have i: "0 \<le> indexOf cs p" "indexOf (c # cs) p = indexOf cs p + 1"
      by (simp_all add: Let_def split: if_splits)
    have "nat (indexOf cs p + 1) = Suc (nat (indexOf cs p))" using i(1) by simp
    then show ?thesis using Cons.IH [OF i(1)] by (simp only: i(2) drop_Suc_Cons)
  qed
qed

lemma indexOf_least: "int j < indexOf s p \<Longrightarrow> \<not> startsWith (drop j s) p"
proof (induction s arbitrary: j)
  case Nil
  then show ?case by (simp split: if_splits)
next
  case (Cons c cs)
  show ?case
  proof (cases "startsWith (c # cs) p")
    case True
    with Cons.prems show ?thesis by simp
  next
    case False
    with Cons.prems have i: "int j < indexOf cs p + 1"
      by (simp add: Let_def split: if_splits)
    show ?thesis
    proof (cases j)
      case 0
      with False show ?thesis by simp
    next
      case (Suc j')
      with i have "int j' < indexOf cs p" by simp
      then have "\<not> startsWith (drop j' cs) p" by (rule Cons.IH)
      then show ?thesis by (simp add: Suc)
    qed
  qed
qed

lemma startsWith_split: "startsWith s p \<Longrightarrow> s = p @ drop (length p) s"
  unfolding startsWith_def by (metis append_take_drop_id)

lemma indexOf_split:
  assumes "0 \<le> indexOf s p"
  shows "s = take (nat (indexOf s p)) s @ p @ drop (nat (indexOf s p) + length p) s"
proof -
  have "drop (nat (indexOf s p)) s = p @ drop (length p) (drop (nat (indexOf s p)) s)"
    using indexOf_startsWith [OF assms] by (rule startsWith_split)
  then have "drop (nat (indexOf s p)) s = p @ drop (nat (indexOf s p) + length p) s"
    by (simp add: add.commute)
  then show ?thesis by (metis append_take_drop_id)
qed

lemma js_includes_iff: "js_includes s p \<longleftrightarrow> (\<exists>pre post. s = pre @ p @ post)"
proof
  assume "js_includes s p"
  then have "0 \<le> indexOf s p" by (simp add: js_includes_def)
  then show "\<exists>pre post. s = pre @ p @ post" using indexOf_split by blast
next
  assume "\<exists>pre post. s = pre @ p @ post"
  then show "js_includes s p" using js_includes_mid by blast
qed

lemma getSubstitution_plain:
  "CHR ''$'' \<notin> set rep \<Longrightarrow> getSubstitution m b a rep = rep"
  by (induction m b a rep rule: getSubstitution.induct) auto

lemma replace_first:
  assumes "js_includes s p"
  shows "\<exists>pre post. s = pre @ p @ post \<and>
           (\<forall>j<length pre. \<not> startsWith (drop j s) p) \<and>
           replace s p rep = pre @ getSubstitution p pre post rep @ post"
proof -
  define i where "i = nat (indexOf s p)"
  have nn: "0 \<le> indexOf s p" using assms by (simp add: js_includes_def)
  have split: "s = take i s @ p @ drop (i + length p) s"
    unfolding i_def using nn by (rule indexOf_split)
  have least: "\<forall>j<length (take i s). \<not> startsWith (drop j s) p"
  proof (intro allI impI)
    fix j assume "j < length (take i s)"
    then have "j < i" by simp
    then have "int j < indexOf s p" unfolding i_def using nn by simp
    then show "\<not> startsWith (drop j s) p" by (rule indexOf_least)
  qed
  have "replace s p rep =
        take i s @ getSubstitution p (take i s) (drop (i + length p) s) rep @ drop (i + length p) s"
    using nn by (simp add: replace_def Let_def i_def)
  with split least show ?thesis by blast
qed

lemma addLinkStyle_append:
  "addLinkStyle api html cssFile False = replace html ''</head>'' (linkTag api cssFile @ ''</head>'')"
  by (simp add: addLinkStyle_def linkTag_def Let_def)

lemma addLinkStyle_prepend:
  "addLinkStyle api html cssFile True = replace html ''<head>'' (''<head>'' @ linkTag api cssFile)"
  by (simp add: addLinkStyle_def linkTag_def Let_def)

section \<open>Claims about the locale paths\<close>

text \<open>
  C1 (amended). \<open>getLocalizedPathname\<close> is not idempotent in general. For \<open>zhCN = false\<close>
  a second call returns its argument whenever the first result contains neither \<open>-cn\<close>
  nor \<open>index\<close>, and a path that starts with \<open>/\<close> and contains neither \<open>-cn\<close> nor \<open>index\<close>
  is returned unchanged. For \<open>zhCN = true\<close> a second call never returns its argument: its
  result differs from the argument and is three characters longer.
\<close>

theorem getLocalizedPathname_idempotence:
  "(\<not> js_includes (getLocalizedPathname p False) ''-cn'' \<and>
    \<not> js_includes (getLocalizedPathname p False) ''index'' \<longrightarrow>
      getLocalizedPathname (getLocalizedPathname p False) False = getLocalizedPathname p False)
   \<and> (startsWith q ''/'' \<and> \<not> js_includes q ''-cn'' \<and> \<not> js_includes q ''index'' \<longrightarrow>
        getLocalizedPathname q False = q)
   \<and> getLocalizedPathname (getLocalizedPathname p True) True \<noteq> getLocalizedPathname p True
   \<and> length (getLocalizedPathname (getLocalizedPathname p True) True) =
       length (getLocalizedPathname p True) + 3"
proof -
  have a: "\<not> js_includes (getLocalizedPathname p False) ''-cn'' \<and>
      \<not> js_includes (getLocalizedPathname p False) ''index'' \<longrightarrow>
      getLocalizedPathname (getLocalizedPathname p False) False = getLocalizedPathname p False"
    using glp_False_idem [of p] by blast
  have b: "startsWith q ''/'' \<and> \<not> js_includes q ''-cn'' \<and> \<not> js_includes q ''index'' \<longrightarrow>
      getLocalizedPathname q False = q"
  proof
    assume h: "startsWith q ''/'' \<and> \<not> js_includes q ''-cn'' \<and> \<not> js_includes q ''index''"
    then obtain t where "q = CHR ''/'' # t" by (auto simp only: startsWith_slash)
    with h show "getLocalizedPathname q False = q" using glp_False_fixed by blast
  qed
  have c: "getLocalizedPathname (getLocalizedPathname p True) True \<noteq> getLocalizedPathname p True"
    by (simp add: glp_True_twice)
  have d: "length (getLocalizedPathname (getLocalizedPathname p True) True) =
       length (getLocalizedPathname p True) + 3"
    by (simp add: glp_True_twice)
  show ?thesis by (rule conjI [OF a conjI [OF b conjI [OF c d]]])
qed

text \<open>
  The path \<open>/components/button-cn\<close> satisfies the hypothesis of the first part, the path
  \<open>/components/button\<close> that of the second.
\<close>

theorem getLocalizedPathname_idempotence_witness:
  "\<not> js_includes (getLocalizedPathname ''/components/button-cn'' False) ''-cn'' \<and>
   \<not> js_includes (getLocalizedPathname ''/components/button-cn'' False) ''index'' \<and>
   getLocalizedPathname (getLocalizedPathname ''/components/button-cn'' False) False =
     getLocalizedPathname ''/components/button-cn'' False \<and>
   getLocalizedPathname ''/components/button-cn'' False = ''/components/button'' \<and>
   startsWith ''/components/button'' ''/'' \<and>
   \<not> js_includes ''/components/button'' ''-cn'' \<and>
   \<not> js_includes ''/components/button'' ''index'' \<and>
   getLocalizedPathname ''/components/button'' False = ''/components/button''"
proof -
  have v: "getLocalizedPathname ''/components/button-cn'' False = ''/components/button''"
    by code_simp
  have h: "\<not> js_includes ''/components/button'' ''-cn''"
    "\<not> js_includes ''/components/button'' ''index''"
    "startsWith ''/components/button'' ''/''"
    by code_simp+
  note t = getLocalizedPathname_idempotence [of "''/components/button-cn''" "''/components/button''"]
  have a: "getLocalizedPathname (getLocalizedPathname ''/components/button-cn'' False) False =
     getLocalizedPathname ''/components/button-cn'' False"
    using t [THEN conjunct1] h(1,2) unfolding v by blast
  have b: "getLocalizedPathname ''/components/button'' False = ''/components/button''"
    using t [THEN conjunct2, THEN conjunct1] h by blast
  show ?thesis using a b h unfolding v by simp
qed

text \<open>
  C1 as stated fails for either value of the flag. At \<open>/components/button\<close> with
  \<open>zhCN = true\<close> the second call adds the suffix a second time; at
  \<open>/components/button-cn-cn\<close> with \<open>zhCN = false\<close> the second call removes a second suffix.
\<close>

theorem getLocalizedPathname_idempotence_counterexample:
  "getLocalizedPathname ''/components/button'' True = ''/components/button-cn'' \<and>
   getLocalizedPathname (getLocalizedPathname ''/components/button'' True) True =
     ''/components/button-cn-cn'' \<and>
   getLocalizedPathname (getLocalizedPathname ''/components/button'' True) True \<noteq>
     getLocalizedPathname ''/components/button'' True \<and>
   getLocalizedPathname ''/components/button-cn-cn'' False = ''/components/button-cn'' \<and>
   getLocalizedPathname (getLocalizedPathname ''/components/button-cn-cn'' False) False =
     ''/components/button'' \<and>
   getLocalizedPathname (getLocalizedPathname ''/components/button-cn-cn'' False) False \<noteq>
     getLocalizedPathname ''/components/button-cn-cn'' False"
  by code_simp

text \<open>
  C6 (amended). \<open>isZhCN (getLocalizedPathname p true)\<close> holds for every path.
  \<open>isZhCN (getLocalizedPathname p false)\<close> is false for every path that contains \<open>index\<close>,
  for every path \<open>q\<close> that contains no \<open>-cn\<close>, and for \<open>q\<close> followed by the suffix \<open>-cn\<close>
  or \<open>-cn/\<close>, that is whenever the locale suffix is the only \<open>-cn\<close> of the path.
\<close>

theorem isZhCN_getLocalizedPathname:
  "isZhCN (getLocalizedPathname p True)
   \<and> (js_includes p ''index'' \<longrightarrow> \<not> isZhCN (getLocalizedPathname p False))
   \<and> (\<not> js_includes q ''-cn'' \<longrightarrow>
        \<not> isZhCN (getLocalizedPathname q False) \<and>
        \<not> isZhCN (getLocalizedPathname (q @ ''-cn'') False) \<and>
        \<not> isZhCN (getLocalizedPathname (q @ ''-cn/'') False))"
  using glp_False_cn_free [of q] glp_False_suffix [of q] glp_False_index [of p]
  by (simp add: isZhCN_glp_True not_isZhCN_slash)

text \<open>The paths \<open>/index-cn\<close> and \<open>/components/button\<close> satisfy the two hypotheses.\<close>

theorem isZhCN_getLocalizedPathname_witness:
  "js_includes ''/index-cn'' ''index'' \<and> \<not> isZhCN (getLocalizedPathname ''/index-cn'' False) \<and>
   \<not> js_includes ''/components/button'' ''-cn'' \<and>
   \<not> isZhCN (getLocalizedPathname ''/components/button'' False) \<and>
   \<not> isZhCN (getLocalizedPathname ''/components/button-cn'' False) \<and>
   \<not> isZhCN (getLocalizedPathname ''/components/button-cn/'' False)"
proof -
  have h: "js_includes ''/index-cn'' ''index''" "\<not> js_includes ''/components/button'' ''-cn''"
    by code_simp+
  show ?thesis
    using isZhCN_getLocalizedPathname [of "''/index-cn''" "''/components/button''"] h
    by simp
qed

text \<open>
  C6 as stated fails at \<open>/components/button-cn-cn\<close>: one \<open>-cn\<close> is removed and the
  result still ends with \<open>-cn\<close>.
\<close>

theorem isZhCN_getLocalizedPathname_counterexample:
  "getLocalizedPathname ''/components/button-cn-cn'' False = ''/components/button-cn'' \<and>
   isZhCN (getLocalizedPathname ''/components/button-cn-cn'' False)"
  by code_simp

section \<open>Claims about the demo metadata parser\<close>

text \<open>
  C2 (amended). The example document is parsed into the three blocks \<open>en-US\<close>, \<open>zh-CN\<close> and
  \<open>style\<close>, in this order; the two descriptions are \<open>Hello\<close> and the two Chinese characters,
  each followed by a line feed; the text of the style block begins with a line feed, then
  \<open>.a{color:red}\<close> and a line feed: the opening fence is removed where it stood and its
  line end stays. Nothing is said about what follows.
\<close>

theorem parseBlocks_example:
  "map fst (parseBlocks example_md) = [''en-US'', ''zh-CN'', ''style''] \<and>
   map_of (parseBlocks example_md) ''en-US'' = Some ''Hello\<newline>'' \<and>
   map_of (parseBlocks example_md) ''zh-CN'' =
     Some [CHR 0xE4, CHR 0xBD, CHR 0xA0, CHR 0xE5, CHR 0xA5, CHR 0xBD, CHR 0x0A] \<and>
   (\<exists>rest. map_of (parseBlocks example_md) ''style'' = Some (''\<newline>.a{color:red}\<newline>'' @ rest))"
proof -
  have v: "parseBlocks example_md =
     [(''en-US'', ''Hello\<newline>''),
      (''zh-CN'', [CHR 0xE4, CHR 0xBD, CHR 0xA0, CHR 0xE5, CHR 0xA5, CHR 0xBD, CHR 0x0A]),
      (''style'', ''\<newline>.a{color:red}\<newline>```'')]"
    by code_simp
  show ?thesis unfolding v by simp
qed

text \<open>
  C2 as stated fails: the parser returns the style text with the line feed in front and
  with the closing fence at its end, which is not the mapping of the claim.
\<close>

theorem parseBlocks_example_counterexample:
  "parseBlocks example_md =
     [(''en-US'', ''Hello\<newline>''),
      (''zh-CN'', [CHR 0xE4, CHR 0xBD, CHR 0xA0, CHR 0xE5, CHR 0xA5, CHR 0xBD, CHR 0x0A]),
      (''style'', ''\<newline>.a{color:red}\<newline>```'')] \<and>
   map_of (parseBlocks example_md) \<noteq>
     map_of [(''en-US'', ''Hello\<newline>''),
      (''zh-CN'', [CHR 0xE4, CHR 0xBD, CHR 0xA0, CHR 0xE5, CHR 0xA5, CHR 0xBD, CHR 0x0A]),
      (''style'', ''.a{color:red}\<newline>'')]"
proof -
  have v: "parseBlocks example_md =
     [(''en-US'', ''Hello\<newline>''),
      (''zh-CN'', [CHR 0xE4, CHR 0xBD, CHR 0xA0, CHR 0xE5, CHR 0xA5, CHR 0xBD, CHR 0x0A]),
      (''style'', ''\<newline>.a{color:red}\<newline>```'')]"
    by code_simp
  have "map_of (parseBlocks example_md) ''style'' \<noteq>
     map_of [(''en-US'', ''Hello\<newline>''),
      (''zh-CN'', [CHR 0xE4, CHR 0xBD, CHR 0xA0, CHR 0xE5, CHR 0xA5, CHR 0xBD, CHR 0x0A]),
      (''style'', ''.a{color:red}\<newline>'')] ''style''"
    unfolding v by simp
  then have "map_of (parseBlocks example_md) \<noteq>
     map_of [(''en-US'', ''Hello\<newline>''),
      (''zh-CN'', [CHR 0xE4, CHR 0xBD, CHR 0xA0, CHR 0xE5, CHR 0xA5, CHR 0xBD, CHR 0x0A]),
      (''style'', ''.a{color:red}\<newline>'')]"
    by metis
  with v show ?thesis by simp
qed




section \<open>Claims about the export plugin\<close>

text \<open>
  C3 (amended). For one key, two sequences of rule ids get the same file name exactly
  when the 8-character digests of their joined strings are equal. The ids are joined
  without a separator, so two sequences with the same concatenation always get the same
  name; the names differ whenever the digests differ.
\<close>

theorem cssFileName_same_digest:
  "(fst (writeCSSFile api k (join [] ids1) c1 b1) = fst (writeCSSFile api k (join [] ids2) c2 b2)
      \<longleftrightarrow> getHash (join [] ids1) 8 = getHash (join [] ids2) 8)
   \<and> (join [] ids1 = join [] ids2 \<longrightarrow>
        fst (writeCSSFile api k (join [] ids1) c1 b1) = fst (writeCSSFile api k (join [] ids2) c2 b2))"
  by (simp add: fst_writeCSSFile cssFileName_eq_iff)

text \<open>The sequences \<open>["ab"]\<close> and \<open>["a", "b"]\<close> have the same concatenation.\<close>

theorem cssFileName_same_digest_witness:
  "join [] [''ab''] = join [] [''a'', ''b''] \<and>
   fst (writeCSSFile example_api ''antd'' (join [] [''ab'']) ''.a{}'' empty_build) =
   fst (writeCSSFile example_api ''antd'' (join [] [''a'', ''b'']) ''.a{}'' empty_build)"
proof -
  have h: "join [] [''ab''] = join [] [''a'', ''b'']" by simp
  show ?thesis
    using cssFileName_same_digest [of example_api "''antd''" "[''ab'']" "''.a{}''" empty_build
        "[''a'', ''b'']" "''.a{}''" empty_build] h
    by blast
qed

text \<open>
  C3 as stated fails for the two distinct sequences \<open>["ab"]\<close> and \<open>["a", "b"]\<close> under the key
  \<open>antd\<close>: both are hashed as \<open>ab\<close> and get one file name.
\<close>

theorem cssFileName_distinct_counterexample:
  "[''ab''] \<noteq> [''a'', ''b''] \<and>
   fst (writeCSSFile example_api ''antd'' (join [] [''ab'']) ''.a{}'' empty_build) =
   fst (writeCSSFile example_api ''antd'' (join [] [''a'', ''b'']) ''.a{}'' empty_build)"
  by (simp add: fst_writeCSSFile)

text \<open>
  C4 (amended). If the file of the derived name exists, \<open>writeCSSFile\<close> writes nothing and
  leaves the build state as it is. A second call with the same arguments is always such a
  call, so it changes nothing; the two calls together write once if the file was absent
  before the first call and not at all if it was there.
\<close>

theorem writeCSSFile_idempotent:
  "(files b (path_join (absOutputPath api) (cssFileName k h)) \<noteq> None \<longrightarrow>
      writeCSSFile api k h c b = (cssFileName k h, b))
   \<and> writeCSSFile api k h c (snd (writeCSSFile api k h c b)) =
       (cssFileName k h, snd (writeCSSFile api k h c b))
   \<and> writes (snd (writeCSSFile api k h c (snd (writeCSSFile api k h c b)))) =
       writes b @
       (if files b (path_join (absOutputPath api) (cssFileName k h)) = None
        then [(path_join (absOutputPath api) (cssFileName k h), c)] else [])"
  using writeCSSFile_present [of b api k h c] writeCSSFile_twice [of api k h c b]
    writes_writeCSSFile [of api k h c b]
  by (simp add: cssFilePath_def)

text \<open>An output directory in which the file of the call exists already.\<close>

theorem writeCSSFile_idempotent_witness:
  "files old_build (path_join (absOutputPath example_api) (cssFileName ''antd'' ''abc'')) \<noteq> None \<and>
   writeCSSFile example_api ''antd'' ''abc'' ''.a{}'' old_build =
     (cssFileName ''antd'' ''abc'', old_build)"
proof -
  have h: "files old_build (path_join (absOutputPath example_api) (cssFileName ''antd'' ''abc'')) \<noteq> None"
    by (simp add: old_build_def example_api_def)
  show ?thesis
    using writeCSSFile_idempotent [of old_build example_api "''antd''" "''abc''" "''.a{}''"] h
    by blast
qed

text \<open>
  C4 as stated fails in that directory: the two calls perform no write at all, not
  exactly one.
\<close>

theorem writeCSSFile_one_write_counterexample:
  "writes old_build = [] \<and>
   writes (snd (writeCSSFile example_api ''antd'' ''abc'' ''.a{}''
             (snd (writeCSSFile example_api ''antd'' ''abc'' ''.a{}'' old_build)))) = [] \<and>
   length (writes (snd (writeCSSFile example_api ''antd'' ''abc'' ''.a{}''
             (snd (writeCSSFile example_api ''antd'' ''abc'' ''.a{}'' old_build))))) -
     length (writes old_build) \<noteq> 1"
  by (simp add: writeCSSFile_def old_build_def example_api_def Let_def)

text \<open>
  C5. The paths of the pages that the callback returns are the paths of the given pages
  without those that contain \<open>:\<close>, in the given order; no returned page has a path with
  \<open>:\<close>; and the number of returned pages is the number of given pages minus the number
  of pages with \<open>:\<close> in the path. \<open>includes(':')\<close> holds exactly if the character occurs.
\<close>

theorem modifyExportHTMLFiles_filter:
  "map path (fst (modifyExportHTMLFiles api cl fs b)) =
     filter (\<lambda>p. \<not> js_includes p '':'') (map path fs)
   \<and> filter (\<lambda>f. js_includes (path f) '':'') (fst (modifyExportHTMLFiles api cl fs b)) = []
   \<and> length (fst (modifyExportHTMLFiles api cl fs b)) =
       length fs - length (filter (\<lambda>f. js_includes (path f) '':'') fs)
   \<and> js_includes p '':'' = (CHR '':'' \<in> set p)"
proof -
  let ?out = "fst (modifyExportHTMLFiles api cl fs b)"
  have paths: "map path ?out = filter (\<lambda>p. \<not> js_includes p '':'') (map path fs)"
    by (simp add: modifyExportHTMLFiles_def paths_exportFiles filter_map comp_def)
  have "filter (\<lambda>p. js_includes p '':'') (map path ?out) = []"
    unfolding paths by simp
  then have none: "filter (\<lambda>f. js_includes (path f) '':'') ?out = []"
    by (simp add: filter_map comp_def)
  have "length ?out = length (map path ?out)" by simp
  also have "\<dots> = length (filter (\<lambda>f. \<not> js_includes (path f) '':'') fs)"
    unfolding paths by (simp add: filter_map comp_def)
  also have "\<dots> = length fs - length (filter (\<lambda>f. js_includes (path f) '':'') fs)"
    using sum_length_filter_compl [of "\<lambda>f. js_includes (path f) '':''" fs] by simp
  finally have len: "length ?out = length fs - length (filter (\<lambda>f. js_includes (path f) '':'') fs)" .
  show ?thesis using paths none len by (simp add: js_includes_char)
qed

text \<open>
  C7 (amended). After any sequence of calls on a directory in which nothing has been
  written yet by the build, a file holds what it held before the calls or, if it was
  absent, the CSS text of the first call that derived its path (\<open>map_of\<close> takes the first
  entry of a path); every path is written at most once; and what was written is what the
  file holds at the end. A later call that derives the same name with another CSS text
  changes nothing.
\<close>

theorem publishAll_first_write:
  assumes "writes b = []"
  shows "files (publishAll api calls b) =
           map_of (map (\<lambda>(k, h, c). (path_join (absOutputPath api) (cssFileName k h), c)) calls) ++ files b
     \<and> distinct (map fst (writes (publishAll api calls b)))
     \<and> (\<forall>p v. (p, v) \<in> set (writes (publishAll api calls b)) \<longrightarrow>
            files b p = None \<and> files (publishAll api calls b) p = Some v)"
proof -
  have e: "callEntry api = (\<lambda>(k, h, c). (path_join (absOutputPath api) (cssFileName k h), c))"
    by (simp add: callEntry_def cssFilePath_def fun_eq_iff)
  have inv: "distinct (map fst (writes (publishAll api calls b))) \<and>
         (\<forall>p v. (p, v) \<in> set (writes (publishAll api calls b)) \<longrightarrow>
                files (publishAll api calls b) p = Some v)"
    by (rule writes_publishAll) (simp_all add: assms)
  have fresh: "files b p = None" if "(p, v) \<in> set (writes (publishAll api calls b))" for p v
    using written_fresh [OF that] assms by simp
  show ?thesis using files_publishAll [of api calls b] inv fresh unfolding e by blast
qed

text \<open>Two calls with one name and two CSS texts on the empty directory: the first is written.\<close>

theorem publishAll_first_write_witness:
  "writes empty_build = [] \<and>
   (path_join ''/dist'' (cssFileName ''antd'' ''abc''), ''.a{}'') \<in>
     set (writes (publishAll example_api
            [(''antd'', ''abc'', ''.a{}''), (''antd'', ''abc'', ''.b{}'')] empty_build)) \<and>
   files empty_build (path_join ''/dist'' (cssFileName ''antd'' ''abc'')) = None \<and>
   files (publishAll example_api
            [(''antd'', ''abc'', ''.a{}''), (''antd'', ''abc'', ''.b{}'')] empty_build)
     (path_join ''/dist'' (cssFileName ''antd'' ''abc'')) = Some ''.a{}''"
proof -
  have h: "writes empty_build = []" by (simp add: empty_build_def)
  have w: "(path_join ''/dist'' (cssFileName ''antd'' ''abc''), ''.a{}'') \<in>
     set (writes (publishAll example_api
            [(''antd'', ''abc'', ''.a{}''), (''antd'', ''abc'', ''.b{}'')] empty_build))"
    by (simp add: publishAll_def writeCSSFile_def empty_build_def example_api_def Let_def)
  show ?thesis
    using publishAll_first_write [OF h, of example_api
        "[(''antd'', ''abc'', ''.a{}''), (''antd'', ''abc'', ''.b{}'')]"] h w
    by blast
qed

text \<open>
  C7 as stated fails for these two calls: they derive the same file name from the same key
  and rule ids, their CSS texts differ, and the file on disk holds the first text, not the
  second.
\<close>

theorem publishAll_content_counterexample:
  "fst (writeCSSFile example_api ''antd'' ''abc'' ''.a{}'' empty_build) =
   fst (writeCSSFile example_api ''antd'' ''abc'' ''.b{}''
          (snd (writeCSSFile example_api ''antd'' ''abc'' ''.a{}'' empty_build))) \<and>
   ''.a{}'' \<noteq> ''.b{}'' \<and>
   files (publishAll example_api
            [(''antd'', ''abc'', ''.a{}''), (''antd'', ''abc'', ''.b{}'')] empty_build)
     (path_join ''/dist'' (cssFileName ''antd'' ''abc'')) = Some ''.a{}'' \<and>
   files (publishAll example_api
            [(''antd'', ''abc'', ''.a{}''), (''antd'', ''abc'', ''.b{}'')] empty_build)
     (path_join ''/dist'' (cssFileName ''antd'' ''abc'')) \<noteq> Some ''.b{}''"
  by (simp add: publishAll_def writeCSSFile_def empty_build_def example_api_def Let_def)

text \<open>
  C9. \<open>extractEmotionStyle\<close> returns one style object for every cache whose critical CSS
  for the page is not empty, and none for the others, in the order of the caches: at most
  as many objects as caches, their keys a subsequence of the keys of the caches, and none
  with empty CSS.
\<close>

theorem extractEmotionStyle_order:
  "extractEmotionStyle cl html =
     map (\<lambda>c. styleOf c (extractCritical c html))
       (filter (\<lambda>c. css (extractCritical c html) \<noteq> []) cl)
   \<and> length (extractEmotionStyle cl html) \<le> length cl
   \<and> subseq (map key (extractEmotionStyle cl html)) (map cache_key cl)
   \<and> filter (\<lambda>s. css s = []) (extractEmotionStyle cl html) = []"
proof -
  have "length (extractEmotionStyle cl html) \<le> length cl"
    by (simp add: extractEmotionStyle_filter)
  moreover have "subseq (map key (extractEmotionStyle cl html)) (map cache_key cl)"
    unfolding extractEmotionStyle_keys by (rule subseq_map) (rule subseq_filter_left)
  ultimately show ?thesis
    using extractEmotionStyle_filter [of cl html] extractEmotionStyle_nonempty [of cl html]
    by blast
qed

text \<open>
  C10. If the page does not contain \<open></head>\<close> (or \<open><head>\<close> when prepending),
  \<open>addLinkStyle\<close> returns it unchanged. If it does, the page is a text \<open>pre\<close>, the marker and a
  text \<open>post\<close>, where the marker starts at no position inside \<open>pre\<close>, and the result is
  \<open>pre\<close>, the replacement and \<open>post\<close>: only the first occurrence is rewritten, and every
  later one is still in \<open>post\<close>. The replacement is the link element next to the marker when
  the public path and the file name contain no \<open>$\<close>. A string contains a marker exactly if
  it is some text, the marker and some text.
\<close>

theorem addLinkStyle_first_marker:
  "(\<not> js_includes html ''</head>'' \<longrightarrow> addLinkStyle api html cssFile False = html)
   \<and> (\<not> js_includes html ''<head>'' \<longrightarrow> addLinkStyle api html cssFile True = html)
   \<and> (js_includes html ''</head>'' \<longrightarrow>
        (\<exists>pre post. html = pre @ ''</head>'' @ post \<and>
           (\<forall>j<length pre. \<not> startsWith (drop j html) ''</head>'') \<and>
           addLinkStyle api html cssFile False =
             pre @ getSubstitution ''</head>'' pre post (linkTag api cssFile @ ''</head>'') @ post))
   \<and> (js_includes html ''<head>'' \<longrightarrow>
        (\<exists>pre post. html = pre @ ''<head>'' @ post \<and>
           (\<forall>j<length pre. \<not> startsWith (drop j html) ''<head>'') \<and>
           addLinkStyle api html cssFile True =
             pre @ getSubstitution ''<head>'' pre post (''<head>'' @ linkTag api cssFile) @ post))
   \<and> (CHR ''$'' \<notin> set (publicPath api @ cssFile) \<longrightarrow>
        getSubstitution m pre' post' (linkTag api cssFile @ ''</head>'') =
          linkTag api cssFile @ ''</head>'' \<and>
        getSubstitution m pre' post' (''<head>'' @ linkTag api cssFile) =
          ''<head>'' @ linkTag api cssFile)
   \<and> (js_includes s marker \<longleftrightarrow> (\<exists>before after. s = before @ marker @ after))"
proof -
  have plain: "CHR ''$'' \<notin> set (linkTag api cssFile @ ''</head>'') \<and>
               CHR ''$'' \<notin> set (''<head>'' @ linkTag api cssFile)"
    if "CHR ''$'' \<notin> set (publicPath api @ cssFile)"
    using that by (simp add: linkTag_def)
  have a: "\<not> js_includes html ''</head>'' \<longrightarrow> addLinkStyle api html cssFile False = html"
    unfolding addLinkStyle_append using replace_absent [of html "''</head>''"] by blast
  have b: "\<not> js_includes html ''<head>'' \<longrightarrow> addLinkStyle api html cssFile True = html"
    unfolding addLinkStyle_prepend using replace_absent [of html "''<head>''"] by blast
  have c: "js_includes html ''</head>'' \<longrightarrow>
        (\<exists>pre post. html = pre @ ''</head>'' @ post \<and>
           (\<forall>j<length pre. \<not> startsWith (drop j html) ''</head>'') \<and>
           addLinkStyle api html cssFile False =
             pre @ getSubstitution ''</head>'' pre post (linkTag api cssFile @ ''</head>'') @ post)"
    unfolding addLinkStyle_append
    using replace_first [of html "''</head>''" "linkTag api cssFile @ ''</head>''"] by (rule impI)
  have d: "js_includes html ''<head>'' \<longrightarrow>
        (\<exists>pre post. html = pre @ ''<head>'' @ post \<and>
           (\<forall>j<length pre. \<not> startsWith (drop j html) ''<head>'') \<and>
           addLinkStyle api html cssFile True =
             pre @ getSubstitution ''<head>'' pre post (''<head>'' @ linkTag api cssFile) @ post)"
    unfolding addLinkStyle_prepend
    using replace_first [of html "''<head>''" "''<head>'' @ linkTag api cssFile"] by (rule impI)
  have e: "CHR ''$'' \<notin> set (publicPath api @ cssFile) \<longrightarrow>
        getSubstitution m pre' post' (linkTag api cssFile @ ''</head>'') =
          linkTag api cssFile @ ''</head>'' \<and>
        getSubstitution m pre' post' (''<head>'' @ linkTag api cssFile) =
          ''<head>'' @ linkTag api cssFile"
  proof
    assume "CHR ''$'' \<notin> set (publicPath api @ cssFile)"
    then have p: "CHR ''$'' \<notin> set (linkTag api cssFile @ ''</head>'')"
      "CHR ''$'' \<notin> set (''<head>'' @ linkTag api cssFile)"
      using plain by blast+
    show "getSubstitution m pre' post' (linkTag api cssFile @ ''</head>'') =
          linkTag api cssFile @ ''</head>'' \<and>
        getSubstitution m pre' post' (''<head>'' @ linkTag api cssFile) =
          ''<head>'' @ linkTag api cssFile"
      using getSubstitution_plain [OF p(1)] getSubstitution_plain [OF p(2)] by (rule conjI)
  qed
  have f: "js_includes s marker \<longleftrightarrow> (\<exists>before after. s = before @ marker @ after)"
    by (rule js_includes_iff)
  show ?thesis
    by (rule conjI [OF a conjI [OF b conjI [OF c conjI [OF d conjI [OF e f]]]]])
qed

text \<open>A page without a head, and a page in which \<open></head>\<close> occurs twice.\<close>

theorem addLinkStyle_first_marker_witness:
  \<open>\<not> js_includes ''<p>page</p>'' ''</head>'' \<and>
   addLinkStyle example_api ''<p>page</p>'' ''style-antd.90015098.css'' False = ''<p>page</p>'' \<and>
   \<not> js_includes ''<p>page</p>'' ''<head>'' \<and>
   addLinkStyle example_api ''<p>page</p>'' ''style-antd.90015098.css'' True = ''<p>page</p>'' \<and>
   js_includes ''<head></head><body></head></body>'' ''</head>'' \<and>
   CHR ''$'' \<notin> set (publicPath example_api @ ''style-antd.90015098.css'') \<and>
   (\<exists>pre post. ''<head></head><body></head></body>'' = pre @ ''</head>'' @ post \<and>
      addLinkStyle example_api ''<head></head><body></head></body>'' ''style-antd.90015098.css'' False =
        pre @ (linkTag example_api ''style-antd.90015098.css'' @ ''</head>'') @ post) \<and>
   addLinkStyle example_api ''<head></head><body></head></body>'' ''style-antd.90015098.css'' False =
     ''<head><link rel="stylesheet" href="/style-antd.90015098.css"></head><body></head></body>''\<close>
proof -
  let ?page = "''<p>page</p>''"
  let ?html = "''<head></head><body></head></body>''"
  let ?file = "''style-antd.90015098.css''"
  have h1: "\<not> js_includes ?page ''</head>''" by code_simp
  have h2: "\<not> js_includes ?page ''<head>''" by code_simp
  have h3: "js_includes ?html ''</head>''" by code_simp
  have h4: "CHR ''$'' \<notin> set (publicPath example_api @ ?file)"
    by (simp add: publicPath_def example_api_def)
  note page = addLinkStyle_first_marker [of ?page example_api ?file]
  note html = addLinkStyle_first_marker [of ?html example_api ?file "''</head>''"]
  have a: "addLinkStyle example_api ?page ?file False = ?page"
    using page [THEN conjunct1] h1 by (rule mp)
  have b: "addLinkStyle example_api ?page ?file True = ?page"
    using page [THEN conjunct2, THEN conjunct1] h2 by (rule mp)
  have "\<exists>pre post. ?html = pre @ ''</head>'' @ post \<and>
      (\<forall>j<length pre. \<not> startsWith (drop j ?html) ''</head>'') \<and>
      addLinkStyle example_api ?html ?file False =
        pre @ getSubstitution ''</head>'' pre post (linkTag example_api ?file @ ''</head>'') @ post"
    using html [THEN conjunct2, THEN conjunct2, THEN conjunct1] h3 by (rule mp)
  then obtain pre post where pp: "?html = pre @ ''</head>'' @ post"
      "\<forall>j<length pre. \<not> startsWith (drop j ?html) ''</head>''"
      "addLinkStyle example_api ?html ?file False =
        pre @ getSubstitution ''</head>'' pre post (linkTag example_api ?file @ ''</head>'') @ post"
    by (elim exE conjE)
  have "getSubstitution ''</head>'' pre post (linkTag example_api ?file @ ''</head>'') =
          linkTag example_api ?file @ ''</head>'' \<and>
        getSubstitution ''</head>'' pre post (''<head>'' @ linkTag example_api ?file) =
          ''<head>'' @ linkTag example_api ?file"
    using html [THEN conjunct2, THEN conjunct2, THEN conjunct2, THEN conjunct2, THEN conjunct1,
        of pre post] h4
    by (rule mp)
  then have g: "getSubstitution ''</head>'' pre post (linkTag example_api ?file @ ''</head>'') =
          linkTag example_api ?file @ ''</head>''"
    by (rule conjunct1)
  have c: "\<exists>pre post. ?html = pre @ ''</head>'' @ post \<and>
      addLinkStyle example_api ?html ?file False =
        pre @ (linkTag example_api ?file @ ''</head>'') @ post"
    using pp(1) pp(3) [unfolded g] by (intro exI conjI)
  have v: \<open>addLinkStyle example_api ?html ?file False =
     ''<head><link rel="stylesheet" href="/style-antd.90015098.css"></head><body></head></body>''\<close>
    by code_simp
  show ?thesis
    by (rule conjI [OF h1 conjI [OF a conjI [OF h2 conjI [OF b conjI [OF h3 conjI [OF h4
          conjI [OF c v]]]]]]])
qed

end
